theory Spec2Isabelle
  imports Complex_Main "HOL-Library.Sublist"
begin

unbundle bit_operations_syntax

section \<open>Data model of maxcalorie.hh\<close>

text \<open>
  A \<open>FoodItem\<close> carries a description, a weight in ounces and a calorie count. The C++
  fields are \<open>double\<close>; they are modelled as exact real numbers, so rounding of the binary
  floating-point format is outside this development. Where a statement about the code
  would depend on the rounding of its sums, it is stated for whole-number values whose
  sums stay below \<open>2^53\<close>, on which double arithmetic is exact. The C++ \<open>int\<close> is taken
  to be 32 bits wide. A \<open>FoodVector\<close> is a vector of shared pointers to immutable items, modelled as a
  list of the items themselves.
\<close>

record FoodItem =
  description :: string
  weight :: real
  foodCalories :: real

type_synonym FoodVector = "FoodItem list"


text \<open>
  What can end a call without a result: a failed \<open>assert\<close>, a vector constructed with a
  size beyond \<open>max_size()\<close>, and a vector subscript outside the vector.
\<close>

datatype error = Assertion_failed | Length_error | Subscript_out_of_range

section \<open>sum\_food\_vector\<close>

definition sum_food_vector :: "FoodVector \<Rightarrow> real \<times> real" where
  "sum_food_vector foods =
     fold (\<lambda>food (total_weight, total_calories).
             (total_weight + weight food, total_calories + foodCalories food))
          foods (0, 0)"

section \<open>filter\_food\_vector\<close>

text \<open>
  The result is the text written to standard output together with the returned pointer:
  \<open>None\<close> is \<open>nullptr\<close>, \<open>Some v\<close> a pointer to the new vector \<open>v\<close>.
\<close>

definition filter_food_vector ::
  "FoodVector \<Rightarrow> real \<Rightarrow> real \<Rightarrow> int \<Rightarrow> string \<times> FoodVector option" where
  "filter_food_vector source min_calories max_calories total_size =
     (if total_size \<le> 0 then (''invalid total size'' @ [CHR 0x0A], None)
      else ([], Some (fold (\<lambda>foods newFood.
                if foodCalories foods > 0 \<and> foodCalories foods \<ge> min_calories
                   \<and> foodCalories foods \<le> max_calories \<and> int (length newFood) < total_size
                then newFood @ [foods] else newFood) source [])))"

section \<open>Conversions from double to integer types\<close>

text \<open>
  A conversion truncates toward zero. When the truncated value does not fit a 32-bit
  \<open>int\<close> the C++ standard leaves the conversion undefined; the value taken here is the one
  an x86-64 build stores (the instruction \<open>cvttsd2si\<close>), which is \<open>INT_MIN\<close>. A negative
  value converted to \<open>size_t\<close> is no subscript within any vector, which is \<open>None\<close> here; a
  value beyond \<open>size_t\<close> is no subscript of any vector either, and the subscript check
  reports it.
\<close>

definition trunc :: "real \<Rightarrow> int" where
  "trunc x = (if 0 \<le> x then \<lfloor>x\<rfloor> else \<lceil>x\<rceil>)"

definition double_to_int :: "real \<Rightarrow> int" where
  "double_to_int x =
     (if - (2 ^ 31) \<le> trunc x \<and> trunc x \<le> 2 ^ 31 - 1 then trunc x else - (2 ^ 31))"


section \<open>exhaustive\_max\_calories\<close>

text \<open>The inner loop: item \<open>j\<close> is pushed when \<open>((i >> j) & 1) == 1\<close>.\<close>

definition candidate :: "FoodVector \<Rightarrow> int \<Rightarrow> FoodVector" where
  "candidate foods i =
     fold (\<lambda>j cand. if (drop_bit j i) AND 1 = 1 then cand @ [foods ! j] else cand)
          [0..<length foods] []"

text \<open>The body of the outer loop, as a function of the mask \<open>i\<close> and the current best.\<close>

definition exhaustive_step :: "FoodVector \<Rightarrow> real \<Rightarrow> int \<Rightarrow> FoodVector \<Rightarrow> FoodVector" where
  "exhaustive_step foods total_weight i best =
     (let cand = candidate foods i;
          (candidateWeight, candidateCalories) = sum_food_vector cand;
          (bestWeight, bestCalories) = sum_food_vector best
      in if candidateWeight \<le> total_weight
         then (if best = [] \<or> candidateCalories > bestCalories then cand else best)
         else best)"

text \<open>
  The size of the vector is assumed to fit an \<open>int\<close>, and assertions to be enabled:
  \<open>assert(n < 64)\<close> ends the call when it fails. \<open>int nSquared = pow(2, n)\<close> converts
  the double \<open>2^n\<close> to a 32-bit \<open>int\<close>; the loop counter \<open>i\<close> then runs over
  \<open>0 \<le> i < nSquared\<close>, and \<open>best\<close> starts as an empty vector.
\<close>

definition exhaustive_max_calories :: "FoodVector \<Rightarrow> real \<Rightarrow> error + FoodVector" where
  "exhaustive_max_calories foods total_weight =
     (let n = length foods in
      if \<not> n < 64 then Inl Assertion_failed
      else let nSquared = double_to_int (2 ^ n) in
        Inr (fold (exhaustive_step foods total_weight) (map int [0..<nat nSquared]) []))"

section \<open>dynamic\_max\_calories\<close>








text \<open>Total weight and total calories of a collection, as \<open>sum_food_vector\<close> reports them.\<close>

definition total_weight_of :: "FoodVector \<Rightarrow> real" where
  "total_weight_of foods = fst (sum_food_vector foods)"

definition total_calories_of :: "FoodVector \<Rightarrow> real" where
  "total_calories_of foods = snd (sum_food_vector foods)"

text \<open>The items the filter keeps.\<close>

definition matches :: "real \<Rightarrow> real \<Rightarrow> FoodItem \<Rightarrow> bool" where
  "matches min_calories max_calories f \<longleftrightarrow>
     foodCalories f > 0 \<and> min_calories \<le> foodCalories f \<and> foodCalories f \<le> max_calories"

section \<open>Auxiliary definitions for the proofs\<close>

text \<open>
  The value that the tabulation stores in cell \<open>(i, w)\<close>: the assignment made by the loop
  body, with the cells of row \<open>i - 1\<close> it reads replaced by their own values.
\<close>

fun cell_value :: "FoodVector \<Rightarrow> nat \<Rightarrow> nat \<Rightarrow> real" where
  "cell_value foods 0 w = 0"
| "cell_value foods (Suc i) w =
     (if w = 0 then 0
      else if weight (foods ! i) \<le> real w
      then max (foodCalories (foods ! i) + cell_value foods i (nat \<lfloor>real w - weight (foods ! i)\<rfloor>))
               (cell_value foods i w)
      else cell_value foods i w)"


text \<open>The items the reconstruction loop pushes, read off the cell values.\<close>

fun chosen :: "FoodVector \<Rightarrow> nat \<Rightarrow> nat \<Rightarrow> FoodVector" where
  "chosen foods 0 w = []"
| "chosen foods (Suc i) w =
     (if cell_value foods (Suc i) w = cell_value foods i w then chosen foods i w
      else foods ! i # chosen foods i (nat \<lfloor>real w - weight (foods ! i)\<rfloor>))"


section \<open>Example items\<close>

text \<open>
  The two items of \<open>trivial_foods\<close> in maxcalorie\_test.cc, and further items used to run
  the functions on concrete inputs.
\<close>

abbreviation test_whole_corn :: FoodItem where
  "test_whole_corn \<equiv> \<lparr>description = ''test whole corn'', weight = 10, foodCalories = 20\<rparr>"

abbreviation test_pasta :: FoodItem where
  "test_pasta \<equiv> \<lparr>description = ''test pasta'', weight = 4, foodCalories = 5\<rparr>"

abbreviation trivial_foods :: FoodVector where
  "trivial_foods \<equiv> [test_whole_corn, test_pasta]"

abbreviation bitter_root :: FoodItem where
  "bitter_root \<equiv> \<lparr>description = ''bitter root'', weight = 1, foodCalories = - 5\<rparr>"

abbreviation water :: FoodItem where
  "water \<equiv> \<lparr>description = ''water'', weight = 1, foodCalories = 0\<rparr>"

abbreviation rice :: FoodItem where
  "rice \<equiv> \<lparr>description = ''rice'', weight = 1, foodCalories = 1\<rparr>"

abbreviation nuts :: FoodItem where
  "nuts \<equiv> \<lparr>description = ''nuts'', weight = 2, foodCalories = 7\<rparr>"

abbreviation seeds :: FoodItem where
  "seeds \<equiv> \<lparr>description = ''seeds'', weight = 3, foodCalories = 7\<rparr>"



abbreviation lard :: FoodItem where
  "lard \<equiv> \<lparr>description = ''lard'', weight = 3, foodCalories = 900\<rparr>"

abbreviation bread :: FoodItem where
  "bread \<equiv> \<lparr>description = ''bread'', weight = 2, foodCalories = 300\<rparr>"

abbreviation pantry :: FoodVector where
  "pantry \<equiv> [test_whole_corn, water, lard, test_pasta, bread]"

section \<open>Properties of the aggregator\<close>

lemma sum_food_vector_fold:
  "fold (\<lambda>food (tw, tc). (tw + weight food, tc + foodCalories food)) foods (a, b) =
     (a + sum_list (map weight foods), b + sum_list (map foodCalories foods))"
  by (induction foods arbitrary: a b) (simp_all add: algebra_simps)

lemma sum_food_vector_eq:
  "sum_food_vector foods = (sum_list (map weight foods), sum_list (map foodCalories foods))"
  by (simp add: sum_food_vector_def sum_food_vector_fold)

lemma total_weight_of_eq: "total_weight_of foods = sum_list (map weight foods)"
  by (simp add: total_weight_of_def sum_food_vector_eq)

lemma total_calories_of_eq: "total_calories_of foods = sum_list (map foodCalories foods)"
  by (simp add: total_calories_of_def sum_food_vector_eq)

section \<open>Properties of the filter\<close>

lemma filter_loop:
  "0 < total_size \<Longrightarrow> int (length acc) \<le> total_size \<Longrightarrow>
   fold (\<lambda>foods newFood.
           if foodCalories foods > 0 \<and> foodCalories foods \<ge> min_calories
              \<and> foodCalories foods \<le> max_calories \<and> int (length newFood) < total_size
           then newFood @ [foods] else newFood) source acc
     = acc @ take (nat total_size - length acc) (filter (matches min_calories max_calories) source)"
proof (induction source arbitrary: acc)
  case Nil
  then show ?case by simp
next
  case (Cons f source)
  show ?case
  proof (cases "matches min_calories max_calories f \<and> int (length acc) < total_size")
    case True
    then have len: "int (length (acc @ [f])) \<le> total_size" by simp
    from True obtain m where m: "nat total_size - length acc = Suc m"
      by (cases "nat total_size - length acc") auto
    then have m': "nat total_size - length (acc @ [f]) = m" by simp
    from True have "fold (\<lambda>foods newFood.
           if foodCalories foods > 0 \<and> foodCalories foods \<ge> min_calories
              \<and> foodCalories foods \<le> max_calories \<and> int (length newFood) < total_size
           then newFood @ [foods] else newFood) (f # source) acc
       = fold (\<lambda>foods newFood.
           if foodCalories foods > 0 \<and> foodCalories foods \<ge> min_calories
              \<and> foodCalories foods \<le> max_calories \<and> int (length newFood) < total_size
           then newFood @ [foods] else newFood) source (acc @ [f])"
      by (simp add: matches_def)
    also have "\<dots> = (acc @ [f]) @ take m (filter (matches min_calories max_calories) source)"
      using Cons.IH [OF Cons.prems(1) len] m' by simp
    also have "\<dots> = acc @ take (nat total_size - length acc)
                      (filter (matches min_calories max_calories) (f # source))"
      using True m by simp
    finally show ?thesis .
  next
    case False
    then have step: "fold (\<lambda>foods newFood.
           if foodCalories foods > 0 \<and> foodCalories foods \<ge> min_calories
              \<and> foodCalories foods \<le> max_calories \<and> int (length newFood) < total_size
           then newFood @ [foods] else newFood) (f # source) acc
       = fold (\<lambda>foods newFood.
           if foodCalories foods > 0 \<and> foodCalories foods \<ge> min_calories
              \<and> foodCalories foods \<le> max_calories \<and> int (length newFood) < total_size
           then newFood @ [foods] else newFood) source acc"
      by (auto simp add: matches_def)
    show ?thesis
    proof (cases "matches min_calories max_calories f")
      case True
      with False Cons.prems have "nat total_size - length acc = 0" by simp
      with step Cons.IH [OF Cons.prems] show ?thesis by simp
    next
      case False
      with step Cons.IH [OF Cons.prems] show ?thesis by simp
    qed
  qed
qed

lemma filter_food_vector_eq:
  "0 < limit \<Longrightarrow>
   filter_food_vector source min_calories max_calories limit =
     ([], Some (take (nat limit) (filter (matches min_calories max_calories) source)))"
  using filter_loop [of limit "[]" min_calories max_calories source]
  by (simp add: filter_food_vector_def)

text \<open>
  Claim C6. For a positive limit, \<open>filter_food_vector\<close> returns a new collection holding
  exactly the first \<open>min(limit, number of matching items)\<close> items of the source whose
  calories are strictly positive and lie in \<open>[min_calories, max_calories]\<close>, in source
  order; the first \<open>k\<close> entries of the result for a larger limit are the result for
  limit \<open>k\<close>.
\<close>

theorem filter_food_vector_first_matching:
  assumes "0 < limit"
  shows "\<exists>result.
           snd (filter_food_vector source min_calories max_calories limit) = Some result
         \<and> result = take (nat limit)
                      (filter (\<lambda>f. 0 < foodCalories f \<and> min_calories \<le> foodCalories f
                                   \<and> foodCalories f \<le> max_calories) source)
         \<and> length result = min (nat limit)
                      (length (filter (\<lambda>f. 0 < foodCalories f \<and> min_calories \<le> foodCalories f
                                   \<and> foodCalories f \<le> max_calories) source))
         \<and> subseq result source
         \<and> (\<forall>k. 0 < k \<and> k \<le> limit \<longrightarrow>
                snd (filter_food_vector source min_calories max_calories k)
                  = Some (take (nat k) result))"
proof -
  let ?P = "\<lambda>f. 0 < foodCalories f \<and> min_calories \<le> foodCalories f \<and> foodCalories f \<le> max_calories"
  let ?r = "take (nat limit) (filter ?P source)"
  have P: "matches min_calories max_calories = ?P"
    by (rule ext) (simp add: matches_def)
  have r: "snd (filter_food_vector source min_calories max_calories limit) = Some ?r"
    using assms by (simp add: filter_food_vector_eq P)
  have sub: "subseq ?r source"
    by (rule subseq_order.trans [OF prefix_imp_subseq [OF take_is_prefix] subseq_filter_left])
  have pre: "snd (filter_food_vector source min_calories max_calories k) = Some (take (nat k) ?r)"
    if "0 < k \<and> k \<le> limit" for k
  proof -
    from that have "nat k \<le> nat limit" by linarith
    then have "min (nat k) (nat limit) = nat k" by (rule min_absorb1)
    with that show ?thesis by (simp add: filter_food_vector_eq P)
  qed
  from r sub pre show ?thesis by (simp add: min.commute)
qed

theorem filter_food_vector_first_matching_witness:
  "(0::int) < 2
   \<and> snd (filter_food_vector pantry 4 500 2) = Some [test_whole_corn, test_pasta]
   \<and> snd (filter_food_vector pantry 4 500 1) = Some [test_whole_corn]"
  using filter_food_vector_first_matching [of 2 pantry 4 500]
  by simp

text \<open>
  Claim C7. A non-positive limit is reported on standard output and yields the null
  pointer; a positive limit yields a collection, possibly empty, and prints nothing.
\<close>

theorem filter_food_vector_limit:
  "(limit \<le> 0 \<longrightarrow>
      filter_food_vector source min_calories max_calories limit
        = (''invalid total size'' @ [CHR 0x0A], None))
   \<and> (0 < limit \<longrightarrow>
      fst (filter_food_vector source min_calories max_calories limit) = []
      \<and> (\<exists>result. snd (filter_food_vector source min_calories max_calories limit) = Some result))"
  by (simp add: filter_food_vector_def)

theorem filter_food_vector_limit_witness:
  "(0::int) \<le> 0
   \<and> filter_food_vector trivial_foods 4 500 0 = (''invalid total size'' @ [CHR 0x0A], None)
   \<and> (0::int) < 3
   \<and> filter_food_vector trivial_foods 100 500 3 = ([], Some [])"
  using filter_food_vector_limit [of 0 trivial_foods 4 500]
        filter_food_vector_limit [of 3 trivial_foods 100 500]
  by (simp add: filter_food_vector_def)

section \<open>Candidates of the exhaustive search\<close>

lemma snoc_loop:
  "fold (\<lambda>j cand. if P j then cand @ [f j] else cand) js acc = acc @ map f (filter P js)"
  by (induction js arbitrary: acc) simp_all

lemma shift_and_one: "(drop_bit j (i::int)) AND 1 = 1 \<longleftrightarrow> bit i j"
  by (simp add: and_one_eq bit_iff_odd_drop_bit mod_2_eq_odd)

lemma candidate_eq:
  "candidate foods i = map ((!) foods) (filter (bit i) [0..<length foods])"
  unfolding candidate_def shift_and_one by (rule trans [OF snoc_loop]) simp

lemma candidate_Nil [simp]: "candidate [] i = []"
  by (simp add: candidate_eq)

lemma candidate_Cons:
  "candidate (x # xs) i = (if bit i 0 then [x] else []) @ candidate xs (i div 2)"
proof -
  have "[0..<Suc (length xs)] = 0 # [Suc 0..<Suc (length xs)]"
    by (rule upt_conv_Cons) simp
  also have "[Suc 0..<Suc (length xs)] = map Suc [0..<length xs]"
    by (rule map_Suc_upt [symmetric])
  finally have "[0..<length (x # xs)] = 0 # map Suc [0..<length xs]"
    by simp
  then show ?thesis
    by (simp add: candidate_eq filter_map comp_def bit_Suc)
qed

lemma subseq_candidate: "subseq (candidate foods i) foods"
  by (induction foods arbitrary: i) (auto simp add: candidate_Cons intro: list_emb_Cons)

lemma candidate_complete:
  "subseq ys foods \<Longrightarrow> \<exists>i. 0 \<le> i \<and> i < 2 ^ length foods \<and> candidate foods i = ys"
proof (induction foods arbitrary: ys)
  case Nil
  then have "ys = []" by (rule list_emb_Nil2)
  then have "(0::int) \<le> 0 \<and> (0::int) < 2 ^ length ([]::FoodVector) \<and> candidate [] 0 = ys"
    by simp
  then show ?case by blast
next
  case (Cons x xs)
  show ?case
  proof (cases "subseq ys xs")
    case True
    from Cons.IH [OF this] obtain i where i: "0 \<le> i" "i < 2 ^ length xs" "candidate xs i = ys"
      by blast
    then have "0 \<le> 2 * i \<and> 2 * i < 2 ^ length (x # xs) \<and> candidate (x # xs) (2 * i) = ys"
      by (simp add: candidate_Cons bit_0)
    then show ?thesis by blast
  next
    case False
    with Cons.prems obtain ys' where ys: "ys = x # ys'" "subseq ys' xs"
      by (cases ys) (auto split: if_splits)
    from Cons.IH [OF ys(2)] obtain i where i: "0 \<le> i" "i < 2 ^ length xs" "candidate xs i = ys'"
      by blast
    then have "0 \<le> 2 * i + 1 \<and> 2 * i + 1 < 2 ^ length (x # xs)
               \<and> candidate (x # xs) (2 * i + 1) = ys"
      by (simp add: candidate_Cons ys bit_0)
    then show ?thesis by blast
  qed
qed

lemma candidate_zero [simp]: "candidate foods 0 = []"
  by (simp add: candidate_eq)

lemma candidate_nonempty:
  "0 < i \<Longrightarrow> i < 2 ^ length foods \<Longrightarrow> candidate foods i \<noteq> []"
proof (induction foods arbitrary: i)
  case Nil
  then show ?case by simp
next
  case (Cons x xs)
  show ?case
  proof (cases "bit i 0")
    case True
    then show ?thesis by (simp add: candidate_Cons)
  next
    case False
    then have "even i" by (simp add: bit_0)
    with Cons.prems have "0 < i div 2" "i div 2 < 2 ^ length xs" by auto
    from Cons.IH [OF this] False show ?thesis by (simp add: candidate_Cons)
  qed
qed

section \<open>The loop of the exhaustive search\<close>

lemma exhaustive_step_eq:
  "exhaustive_step foods W i best =
     (if total_weight_of (candidate foods i) \<le> W
         \<and> (best = [] \<or> total_calories_of (candidate foods i) > total_calories_of best)
      then candidate foods i else best)"
  by (simp add: exhaustive_step_def Let_def total_weight_of_def total_calories_of_def
           split: prod.splits)

lemma exhaustive_loop_Suc:
  "fold (exhaustive_step foods W) (map int [0..<Suc m]) [] =
     exhaustive_step foods W (int m) (fold (exhaustive_step foods W) (map int [0..<m]) [])"
  by simp

lemma exhaustive_loop_invariant:
  assumes "m \<le> 2 ^ length foods"
  shows "(fold (exhaustive_step foods W) (map int [0..<m]) [] = []
          \<and> (\<forall>k<m. total_weight_of (candidate foods (int k)) \<le> W \<longrightarrow> candidate foods (int k) = []))
       \<or> (fold (exhaustive_step foods W) (map int [0..<m]) [] \<noteq> []
          \<and> (\<exists>i<m. fold (exhaustive_step foods W) (map int [0..<m]) [] = candidate foods (int i)
                \<and> total_weight_of (candidate foods (int i)) \<le> W
                \<and> (\<forall>k<m. total_weight_of (candidate foods (int k)) \<le> W
                           \<and> candidate foods (int k) \<noteq> [] \<longrightarrow>
                       total_calories_of (candidate foods (int k)) < total_calories_of (candidate foods (int i))
                     \<or> (total_calories_of (candidate foods (int k)) = total_calories_of (candidate foods (int i))
                        \<and> i \<le> k))))"
  using assms
proof (induction m)
  case 0
  then show ?case by simp
next
  case (Suc m)
  let ?best = "fold (exhaustive_step foods W) (map int [0..<m]) []"
  let ?c = "candidate foods (int m)"
  let ?new = "fold (exhaustive_step foods W) (map int [0..<Suc m]) []"
  have new: "?new = exhaustive_step foods W (int m) ?best"
    by (rule exhaustive_loop_Suc)
  from Suc.prems have m: "m \<le> 2 ^ length foods" "int m < 2 ^ length foods"
    by simp_all
  note IH = Suc.IH [OF m(1)]
  have nonempty: "?c \<noteq> []" if "0 < m"
    using that m(2) by (intro candidate_nonempty) simp_all
  show ?case
  proof (cases "total_weight_of ?c \<le> W")
    case False
    then have "?new = ?best" by (simp add: new exhaustive_step_eq)
    with False IH show ?thesis
      by (auto simp add: less_Suc_eq)
  next
    case feasible: True
    from IH show ?thesis
    proof
      assume A: "?best = [] \<and> (\<forall>k<m. total_weight_of (candidate foods (int k)) \<le> W \<longrightarrow> candidate foods (int k) = [])"
      with feasible have eq: "?new = ?c" by (simp add: new exhaustive_step_eq)
      show ?thesis
      proof (cases "?c = []")
        case True
        with eq A show ?thesis by (auto simp add: less_Suc_eq)
      next
        case False
        have "?new \<noteq> []" using eq False by simp
        moreover have "m < Suc m \<and> ?new = candidate foods (int m)
                \<and> total_weight_of (candidate foods (int m)) \<le> W
                \<and> (\<forall>k<Suc m. total_weight_of (candidate foods (int k)) \<le> W
                           \<and> candidate foods (int k) \<noteq> [] \<longrightarrow>
                       total_calories_of (candidate foods (int k)) < total_calories_of (candidate foods (int m))
                     \<or> (total_calories_of (candidate foods (int k)) = total_calories_of (candidate foods (int m))
                        \<and> m \<le> k))"
          using eq feasible A by (auto simp add: less_Suc_eq)
        ultimately show ?thesis by blast
      qed
    next
      assume B: "?best \<noteq> []
          \<and> (\<exists>i<m. ?best = candidate foods (int i)
                \<and> total_weight_of (candidate foods (int i)) \<le> W
                \<and> (\<forall>k<m. total_weight_of (candidate foods (int k)) \<le> W
                           \<and> candidate foods (int k) \<noteq> [] \<longrightarrow>
                       total_calories_of (candidate foods (int k)) < total_calories_of (candidate foods (int i))
                     \<or> (total_calories_of (candidate foods (int k)) = total_calories_of (candidate foods (int i))
                        \<and> i \<le> k)))"
      then obtain i where i: "i < m" "?best = candidate foods (int i)"
          "total_weight_of (candidate foods (int i)) \<le> W"
          "\<forall>k<m. total_weight_of (candidate foods (int k)) \<le> W
                           \<and> candidate foods (int k) \<noteq> [] \<longrightarrow>
                       total_calories_of (candidate foods (int k)) < total_calories_of (candidate foods (int i))
                     \<or> (total_calories_of (candidate foods (int k)) = total_calories_of (candidate foods (int i))
                        \<and> i \<le> k)"
        by blast
      from i(1) have c: "?c \<noteq> []" by (intro nonempty) simp
      show ?thesis
      proof (cases "total_calories_of ?c > total_calories_of ?best")
        case True
        with feasible have eq: "?new = ?c" by (simp add: new exhaustive_step_eq)
        have "?new \<noteq> []" using eq c by simp
        moreover have "m < Suc m \<and> ?new = candidate foods (int m)
                \<and> total_weight_of (candidate foods (int m)) \<le> W
                \<and> (\<forall>k<Suc m. total_weight_of (candidate foods (int k)) \<le> W
                           \<and> candidate foods (int k) \<noteq> [] \<longrightarrow>
                       total_calories_of (candidate foods (int k)) < total_calories_of (candidate foods (int m))
                     \<or> (total_calories_of (candidate foods (int k)) = total_calories_of (candidate foods (int m))
                        \<and> m \<le> k))"
          using eq feasible True i by (fastforce simp add: less_Suc_eq)
        ultimately show ?thesis by blast
      next
        case False
        with B have eq: "?new = ?best" by (simp add: new exhaustive_step_eq)
        have "?new \<noteq> []" using eq B by simp
        moreover have "i < Suc m \<and> ?new = candidate foods (int i)
                \<and> total_weight_of (candidate foods (int i)) \<le> W
                \<and> (\<forall>k<Suc m. total_weight_of (candidate foods (int k)) \<le> W
                           \<and> candidate foods (int k) \<noteq> [] \<longrightarrow>
                       total_calories_of (candidate foods (int k)) < total_calories_of (candidate foods (int i))
                     \<or> (total_calories_of (candidate foods (int k)) = total_calories_of (candidate foods (int i))
                        \<and> i \<le> k))"
          using eq False i by (fastforce simp add: less_Suc_eq)
        ultimately show ?thesis by blast
      qed
    qed
  qed
qed

lemma subseq_set: "subseq ys foods \<Longrightarrow> set ys \<subseteq> set foods"
  by (auto dest: list_emb_set)

lemma nonneg_calories:
  "\<forall>f\<in>set foods. 0 \<le> foodCalories f \<Longrightarrow> subseq ys foods \<Longrightarrow> 0 \<le> total_calories_of ys"
  using subseq_set [of ys foods] by (force simp add: total_calories_of_eq intro!: sum_list_nonneg)

lemma total_weight_of_Nil [simp]: "total_weight_of [] = 0"
  by (simp add: total_weight_of_eq)

lemma total_calories_of_Nil [simp]: "total_calories_of [] = 0"
  by (simp add: total_calories_of_eq)

lemma double_to_int_power:
  assumes "n < 31"
  shows "double_to_int (2 ^ n) = 2 ^ n"
proof -
  from assms have "n \<le> 30" by simp
  then have "(2::int) ^ n \<le> 2 ^ 30" by (rule power_increasing) simp
  then have "(2::int) ^ n \<le> 2 ^ 31 - 1" by simp
  moreover have "- (2 ^ 31) \<le> (2::int) ^ n"
    by (rule order_trans [of _ 0]) simp_all
  moreover have "trunc (2 ^ n) = 2 ^ n" by (simp add: trunc_def)
  ultimately show ?thesis by (simp add: double_to_int_def)
qed

lemma exhaustive_max_calories_loop:
  assumes "length foods < 31"
  shows "exhaustive_max_calories foods W =
           Inr (fold (exhaustive_step foods W) (map int [0..<2 ^ length foods]) [])"
proof -
  have pw: "nat ((2::int) ^ length foods) = 2 ^ length foods"
    by (simp add: nat_power_eq)
  show ?thesis
    using assms by (simp add: exhaustive_max_calories_def Let_def double_to_int_power pw)
qed

lemma double_to_int_overflow:
  assumes "31 \<le> n"
  shows "double_to_int (2 ^ n) = - (2 ^ 31)"
proof -
  from assms have "(2::int) ^ 31 \<le> 2 ^ n" by (intro power_increasing) simp_all
  then have "\<not> (2::int) ^ n \<le> 2 ^ 31 - 1" by simp
  moreover have "trunc (2 ^ n) = 2 ^ n" by (simp add: trunc_def)
  ultimately show ?thesis by (simp add: double_to_int_def)
qed

lemma exhaustive_max_calories_overflow:
  "31 \<le> length foods \<Longrightarrow> length foods < 64 \<Longrightarrow> exhaustive_max_calories foods W = Inr []"
  by (simp add: exhaustive_max_calories_def Let_def double_to_int_overflow)

lemma exhaustive_max_calories_assert:
  "64 \<le> length foods \<Longrightarrow> exhaustive_max_calories foods W = Inl Assertion_failed"
  by (simp add: exhaustive_max_calories_def Let_def)

lemma candidate_complete_nat:
  assumes "subseq ys foods"
  shows "\<exists>k<2 ^ length foods. candidate foods (int k) = ys"
proof -
  from candidate_complete [OF assms] obtain i
    where i: "0 \<le> i" "i < 2 ^ length foods" "candidate foods i = ys" by blast
  then have "nat i < 2 ^ length foods" "candidate foods (int (nat i)) = ys"
    by (simp_all add: nat_less_iff)
  then show ?thesis by blast
qed

section \<open>The table of the dynamic-programming solver\<close>








section \<open>The reconstruction loop\<close>

lemma cell_value_0 [simp]: "cell_value foods i 0 = 0"
  by (cases i) simp_all




declare cell_value.simps(2) [simp del]









lemma total_weight_of_nonneg:
  "\<forall>f\<in>set ys. 0 \<le> weight f \<Longrightarrow> 0 \<le> total_weight_of ys"
  by (auto simp add: total_weight_of_eq intro!: sum_list_nonneg)

lemma total_weight_of_pos:
  "\<forall>f\<in>set ys. 0 < weight f \<Longrightarrow> ys \<noteq> [] \<Longrightarrow> 0 < total_weight_of ys"
proof (induction ys)
  case Nil
  then show ?case by simp
next
  case (Cons y ys)
  then have "0 \<le> total_weight_of ys"
    by (intro total_weight_of_nonneg) (auto intro: less_imp_le)
  with Cons.prems show ?case by (simp add: total_weight_of_eq)
qed




section \<open>Results of the two solvers\<close>

lemma exhaustive_first_best:
  assumes n: "length foods < 31"
  shows "\<exists>best. exhaustive_max_calories foods capacity = Inr best
          \<and> ((best = []
               \<and> (\<forall>k<2 ^ length foods. total_weight_of (candidate foods (int k)) \<le> capacity
                      \<longrightarrow> candidate foods (int k) = []))
             \<or> (best \<noteq> []
               \<and> (\<exists>i<2 ^ length foods. best = candidate foods (int i)
                    \<and> total_weight_of (candidate foods (int i)) \<le> capacity
                    \<and> (\<forall>k<2 ^ length foods. total_weight_of (candidate foods (int k)) \<le> capacity
                           \<and> candidate foods (int k) \<noteq> [] \<longrightarrow>
                         total_calories_of (candidate foods (int k)) < total_calories_of (candidate foods (int i))
                       \<or> (total_calories_of (candidate foods (int k)) = total_calories_of (candidate foods (int i))
                          \<and> i \<le> k)))))"
  unfolding exhaustive_max_calories_loop [OF n]
  using exhaustive_loop_invariant [of "2 ^ length foods" foods capacity] by simp

lemma exhaustive_result:
  assumes n: "length foods < 31"
  shows "\<exists>best. exhaustive_max_calories foods capacity = Inr best
          \<and> subseq best foods
          \<and> (best = [] \<or> total_weight_of best \<le> capacity)
          \<and> (\<forall>ys. subseq ys foods \<and> total_weight_of ys \<le> capacity \<and> ys \<noteq> []
                 \<longrightarrow> best \<noteq> [] \<and> total_calories_of ys \<le> total_calories_of best)"
proof -
  from exhaustive_first_best [OF n, of capacity] obtain best
    where res: "exhaustive_max_calories foods capacity = Inr best"
      and inv: "(best = []
               \<and> (\<forall>k<2 ^ length foods. total_weight_of (candidate foods (int k)) \<le> capacity
                      \<longrightarrow> candidate foods (int k) = []))
             \<or> (best \<noteq> []
               \<and> (\<exists>i<2 ^ length foods. best = candidate foods (int i)
                    \<and> total_weight_of (candidate foods (int i)) \<le> capacity
                    \<and> (\<forall>k<2 ^ length foods. total_weight_of (candidate foods (int k)) \<le> capacity
                           \<and> candidate foods (int k) \<noteq> [] \<longrightarrow>
                         total_calories_of (candidate foods (int k)) < total_calories_of (candidate foods (int i))
                       \<or> (total_calories_of (candidate foods (int k)) = total_calories_of (candidate foods (int i))
                          \<and> i \<le> k))))"
    by blast
  have sub: "subseq best foods"
    using inv subseq_candidate by auto
  have feas: "best = [] \<or> total_weight_of best \<le> capacity"
    using inv by auto
  have opt: "best \<noteq> [] \<and> total_calories_of ys \<le> total_calories_of best"
    if ys: "subseq ys foods" "total_weight_of ys \<le> capacity" "ys \<noteq> []" for ys
  proof -
    from candidate_complete_nat [OF ys(1)] obtain k
      where k: "k < 2 ^ length foods" "candidate foods (int k) = ys" by blast
    with inv ys(2,3) show ?thesis by force
  qed
  from res sub feas opt show ?thesis by blast
qed


lemma exhaustive_loop_nothing_fits:
  assumes cap: "capacity \<le> 0" and wt: "\<forall>f\<in>set foods. 0 < weight f"
  shows "fold (exhaustive_step foods capacity) (map int [0..<m]) [] = []"
proof (induction m)
  case 0
  then show ?case by simp
next
  case (Suc m)
  have "candidate foods (int m) = []" if fits: "total_weight_of (candidate foods (int m)) \<le> capacity"
  proof (rule ccontr)
    assume ne: "candidate foods (int m) \<noteq> []"
    from subseq_set [OF subseq_candidate] wt
    have "\<forall>f\<in>set (candidate foods (int m)). 0 < weight f" by blast
    from total_weight_of_pos [OF this ne] fits cap show False by simp
  qed
  with Suc show ?case by (simp add: exhaustive_step_eq)
qed

lemma exhaustive_nothing_fits:
  assumes n: "length foods < 64" and cap: "capacity \<le> 0"
    and wt: "\<forall>f\<in>set foods. 0 < weight f"
  shows "exhaustive_max_calories foods capacity = Inr []"
  using n by (simp add: exhaustive_max_calories_def Let_def exhaustive_loop_nothing_fits [OF cap wt])

lemma chosen_zero [simp]: "chosen foods i 0 = []"
  by (induction i) simp_all

lemma total_weight_of_rev [simp]: "total_weight_of (rev ys) = total_weight_of ys"
  by (simp add: total_weight_of_eq rev_map [symmetric])

lemma total_calories_of_rev [simp]: "total_calories_of (rev ys) = total_calories_of ys"
  by (simp add: total_calories_of_eq rev_map [symmetric])





lemma exhaustive_optimum:
  assumes "length foods < 31" and "0 \<le> capacity" and "\<forall>f\<in>set foods. 0 \<le> foodCalories f"
  shows "\<exists>best. exhaustive_max_calories foods capacity = Inr best
           \<and> subseq best foods
           \<and> total_weight_of best \<le> capacity
           \<and> (\<forall>ys. subseq ys foods \<and> total_weight_of ys \<le> capacity
                  \<longrightarrow> total_calories_of ys \<le> total_calories_of best)"
proof -
  from exhaustive_result [OF assms(1), of capacity] obtain best
    where best: "exhaustive_max_calories foods capacity = Inr best" "subseq best foods"
      "best = [] \<or> total_weight_of best \<le> capacity"
      "\<forall>ys. subseq ys foods \<and> total_weight_of ys \<le> capacity \<and> ys \<noteq> []
             \<longrightarrow> best \<noteq> [] \<and> total_calories_of ys \<le> total_calories_of best"
    by blast
  from best(3) assms(2) have feasible: "total_weight_of best \<le> capacity" by auto
  have "total_calories_of ys \<le> total_calories_of best"
    if "subseq ys foods \<and> total_weight_of ys \<le> capacity" for ys
  proof (cases "ys = []")
    case True
    with nonneg_calories [OF assms(3) best(2)] show ?thesis by simp
  next
    case False
    with that best(4) show ?thesis by blast
  qed
  with best(1,2) feasible show ?thesis by blast
qed

section \<open>Claims about the exhaustive solver\<close>

text \<open>
  Claim C1, as amended. For every item collection of fewer than 31 items, all of
  non-negative calories, and every capacity \<open>\<ge> 0\<close>, \<open>exhaustive_max_calories\<close> returns a
  sub-collection of the input of total weight \<open>\<le> capacity\<close>, and no sub-collection of the
  input of total weight \<open>\<le> capacity\<close> has strictly greater total calories. (For 31 to 63
  items \<open>pow(2, n)\<close> does not fit \<open>int nSquared\<close>; nothing is stated about them here.)
\<close>

theorem exhaustive_max_calories_optimal:
  assumes "length foods < 31" and "0 \<le> capacity" and "\<forall>f\<in>set foods. 0 \<le> foodCalories f"
  shows "\<exists>best. exhaustive_max_calories foods capacity = Inr best
           \<and> subseq best foods
           \<and> total_weight_of best \<le> capacity
           \<and> (\<forall>ys. subseq ys foods \<and> total_weight_of ys \<le> capacity
                  \<longrightarrow> total_calories_of ys \<le> total_calories_of best)"
  using assms by (rule exhaustive_optimum)

theorem exhaustive_max_calories_optimal_witness:
  "length trivial_foods < 31
   \<and> (0::real) \<le> 14
   \<and> 0 \<le> foodCalories test_whole_corn \<and> 0 \<le> foodCalories test_pasta
   \<and> exhaustive_max_calories trivial_foods 14 = Inr [test_whole_corn, test_pasta]
   \<and> total_weight_of [test_whole_corn, test_pasta] \<le> 14
   \<and> total_calories_of [test_whole_corn] \<le> total_calories_of [test_whole_corn, test_pasta]"
proof -
  have h1: "length trivial_foods < 31" by simp
  have h2: "(0::real) \<le> 14" by simp
  have h3: "\<forall>f\<in>set trivial_foods. 0 \<le> foodCalories f" by simp
  have run: "exhaustive_max_calories trivial_foods 14 = Inr [test_whole_corn, test_pasta]"
    by code_simp
  from exhaustive_max_calories_optimal [OF h1 h2 h3] run
  have fits: "total_weight_of [test_whole_corn, test_pasta] \<le> 14"
    and best: "\<forall>ys. subseq ys trivial_foods \<and> total_weight_of ys \<le> 14
           \<longrightarrow> total_calories_of ys \<le> total_calories_of [test_whole_corn, test_pasta]"
    by simp_all
  have "subseq [test_whole_corn] trivial_foods \<and> total_weight_of [test_whole_corn] \<le> 14"
    by (simp add: total_weight_of_eq)
  with best have "total_calories_of [test_whole_corn]
                    \<le> total_calories_of [test_whole_corn, test_pasta]" by blast
  with h1 h2 run fits show ?thesis by simp
qed

text \<open>
  Claim C1 as stated fails on an item of negative calories: the item fits, the best is
  still empty when its candidate is met, so it replaces the empty best, although the empty
  sub-collection fits too and has more calories.
\<close>

theorem exhaustive_max_calories_negative_calories:
  "length [bitter_root] < 64
   \<and> (0::real) \<le> 10
   \<and> exhaustive_max_calories [bitter_root] 10 = Inr [bitter_root]
   \<and> subseq [] [bitter_root]
   \<and> total_weight_of [] \<le> 10
   \<and> total_calories_of [bitter_root] < total_calories_of []"
proof -
  have "exhaustive_max_calories [bitter_root] 10 = Inr [bitter_root]"
    by code_simp
  then show ?thesis by (simp add: total_calories_of_eq)
qed

text \<open>
  Claim C4, as amended. The loop body replaces the best-so-far by the candidate of the
  current mask exactly when that candidate has weight \<open>\<le> capacity\<close> and the best-so-far
  is still empty or the candidate has strictly greater total calories; in every other case
  the best is kept. So a candidate that fits does replace an empty best, whatever its
  calories, and a non-empty best is kept against a candidate of equal calories. The
  initial best is the empty collection, of weight 0 and calories 0. Consequently, for
  fewer than 31 items, the returned collection is empty only when no non-empty candidate
  fits, and otherwise it is the candidate of the smallest mask among the non-empty
  candidates that fit and have the greatest total calories.
\<close>

theorem exhaustive_best_replaced:
  "exhaustive_step foods capacity i best =
     (if total_weight_of (candidate foods i) \<le> capacity
         \<and> (best = [] \<or> total_calories_of best < total_calories_of (candidate foods i))
      then candidate foods i else best)
   \<and> (exhaustive_step foods capacity i best \<noteq> best \<longrightarrow>
       exhaustive_step foods capacity i best = candidate foods i
     \<and> total_weight_of (candidate foods i) \<le> capacity
     \<and> (best = [] \<or> total_calories_of best < total_calories_of (candidate foods i)))
   \<and> (best = [] \<and> total_weight_of (candidate foods i) \<le> capacity \<longrightarrow>
       exhaustive_step foods capacity i best = candidate foods i)
   \<and> (total_weight_of (candidate foods i) \<le> capacity
       \<and> total_calories_of best < total_calories_of (candidate foods i) \<longrightarrow>
       exhaustive_step foods capacity i best = candidate foods i)
   \<and> (best \<noteq> [] \<and> total_calories_of (candidate foods i) = total_calories_of best \<longrightarrow>
       exhaustive_step foods capacity i best = best)
   \<and> sum_food_vector [] = (0, 0)
   \<and> (length foods < 31 \<longrightarrow>
       (\<exists>best. exhaustive_max_calories foods capacity = Inr best
          \<and> best = fold (exhaustive_step foods capacity) (map int [0..<2 ^ length foods]) []
          \<and> ((best = []
               \<and> (\<forall>k<2 ^ length foods.
                      total_weight_of (candidate foods (int k)) \<le> capacity
                      \<longrightarrow> candidate foods (int k) = []))
             \<or> (best \<noteq> []
               \<and> (\<exists>i<2 ^ length foods. best = candidate foods (int i)
                    \<and> total_weight_of (candidate foods (int i)) \<le> capacity
                    \<and> (\<forall>k<2 ^ length foods.
                           total_weight_of (candidate foods (int k)) \<le> capacity
                         \<and> candidate foods (int k) \<noteq> [] \<longrightarrow>
                           total_calories_of (candidate foods (int k))
                             < total_calories_of (candidate foods (int i))
                         \<or> (total_calories_of (candidate foods (int k))
                              = total_calories_of (candidate foods (int i))
                            \<and> i \<le> k)))))))"
proof (intro conjI impI)
  show "exhaustive_step foods capacity i best =
     (if total_weight_of (candidate foods i) \<le> capacity
         \<and> (best = [] \<or> total_calories_of best < total_calories_of (candidate foods i))
      then candidate foods i else best)"
    by (rule exhaustive_step_eq)
next
  assume "exhaustive_step foods capacity i best \<noteq> best"
  then show "exhaustive_step foods capacity i best = candidate foods i"
    and "total_weight_of (candidate foods i) \<le> capacity"
    and "best = [] \<or> total_calories_of best < total_calories_of (candidate foods i)"
    by (auto simp add: exhaustive_step_eq split: if_splits)
next
  assume "best = [] \<and> total_weight_of (candidate foods i) \<le> capacity"
  then show "exhaustive_step foods capacity i best = candidate foods i"
    by (simp add: exhaustive_step_eq)
next
  assume "total_weight_of (candidate foods i) \<le> capacity
       \<and> total_calories_of best < total_calories_of (candidate foods i)"
  then show "exhaustive_step foods capacity i best = candidate foods i"
    by (simp add: exhaustive_step_eq)
next
  assume "best \<noteq> [] \<and> total_calories_of (candidate foods i) = total_calories_of best"
  then show "exhaustive_step foods capacity i best = best"
    by (simp add: exhaustive_step_eq)
next
  show "sum_food_vector [] = (0, 0)" by (simp add: sum_food_vector_def)
next
  assume n: "length foods < 31"
  from exhaustive_first_best [OF n, of capacity] obtain best
    where res: "exhaustive_max_calories foods capacity = Inr best"
      and first: "(best = []
               \<and> (\<forall>k<2 ^ length foods. total_weight_of (candidate foods (int k)) \<le> capacity
                      \<longrightarrow> candidate foods (int k) = []))
             \<or> (best \<noteq> []
               \<and> (\<exists>i<2 ^ length foods. best = candidate foods (int i)
                    \<and> total_weight_of (candidate foods (int i)) \<le> capacity
                    \<and> (\<forall>k<2 ^ length foods. total_weight_of (candidate foods (int k)) \<le> capacity
                           \<and> candidate foods (int k) \<noteq> [] \<longrightarrow>
                         total_calories_of (candidate foods (int k)) < total_calories_of (candidate foods (int i))
                       \<or> (total_calories_of (candidate foods (int k)) = total_calories_of (candidate foods (int i))
                          \<and> i \<le> k))))"
    by blast
  from res exhaustive_max_calories_loop [OF n, of capacity]
  have loop: "best = fold (exhaustive_step foods capacity) (map int [0..<2 ^ length foods]) []"
    by simp
  show "\<exists>best. exhaustive_max_calories foods capacity = Inr best
          \<and> best = fold (exhaustive_step foods capacity) (map int [0..<2 ^ length foods]) []
          \<and> ((best = []
               \<and> (\<forall>k<2 ^ length foods.
                      total_weight_of (candidate foods (int k)) \<le> capacity
                      \<longrightarrow> candidate foods (int k) = []))
             \<or> (best \<noteq> []
               \<and> (\<exists>i<2 ^ length foods. best = candidate foods (int i)
                    \<and> total_weight_of (candidate foods (int i)) \<le> capacity
                    \<and> (\<forall>k<2 ^ length foods.
                           total_weight_of (candidate foods (int k)) \<le> capacity
                         \<and> candidate foods (int k) \<noteq> [] \<longrightarrow>
                           total_calories_of (candidate foods (int k))
                             < total_calories_of (candidate foods (int i))
                         \<or> (total_calories_of (candidate foods (int k))
                              = total_calories_of (candidate foods (int i))
                            \<and> i \<le> k)))))"
    by (intro exI [of _ best] conjI res loop first)
qed

text \<open>
  Two items of equal calories, capacity 4: the candidate \<open>[nuts]\<close> of mask 1 fits and
  replaces the empty best, the candidate \<open>[seeds]\<close> of mask 2 has the same calories and
  does not replace it, the candidate of mask 3 does not fit, and \<open>[nuts]\<close> is returned.
\<close>

theorem exhaustive_best_replaced_witness:
  "total_weight_of (candidate [nuts, seeds] 1) \<le> 4
   \<and> exhaustive_step [nuts, seeds] 4 1 [] = [nuts]
   \<and> [nuts] \<noteq> []
   \<and> total_calories_of (candidate [nuts, seeds] 2) = total_calories_of [nuts]
   \<and> exhaustive_step [nuts, seeds] 4 2 [nuts] = [nuts]
   \<and> total_weight_of (candidate [water] 1) \<le> 10
   \<and> exhaustive_step [water] 10 1 [] = [water]
   \<and> length [nuts, seeds] < 31
   \<and> exhaustive_max_calories [nuts, seeds] 4 = Inr [nuts]
   \<and> fold (exhaustive_step [nuts, seeds] 4) (map int [0..<2 ^ length [nuts, seeds]]) [] = [nuts]"
proof -
  have cand: "candidate [nuts, seeds] 1 = [nuts]" by code_simp
  have fits: "total_weight_of (candidate [nuts, seeds] 1) \<le> 4" by code_simp
  have equal: "[nuts] \<noteq> []
      \<and> total_calories_of (candidate [nuts, seeds] 2) = total_calories_of [nuts]"
    by code_simp
  have wcand: "candidate [water] 1 = [water]" by code_simp
  have wfits: "total_weight_of (candidate [water] 1) \<le> 10" by code_simp
  have n: "length [nuts, seeds] < 31" by simp
  have run: "exhaustive_max_calories [nuts, seeds] 4 = Inr [nuts]" by code_simp
  have "([]::FoodVector) = [] \<and> total_weight_of (candidate [nuts, seeds] 1) \<le> 4"
    using fits by simp
  with exhaustive_best_replaced [of "[nuts, seeds]" 4 1 "[]"]
  have "exhaustive_step [nuts, seeds] 4 1 [] = candidate [nuts, seeds] 1" by blast
  then have a: "exhaustive_step [nuts, seeds] 4 1 [] = [nuts]" unfolding cand .
  from exhaustive_best_replaced [of "[nuts, seeds]" 4 2 "[nuts]"] equal
  have b: "exhaustive_step [nuts, seeds] 4 2 [nuts] = [nuts]" by blast
  have "([]::FoodVector) = [] \<and> total_weight_of (candidate [water] 1) \<le> 10"
    using wfits by simp
  with exhaustive_best_replaced [of "[water]" 10 1 "[]"]
  have "exhaustive_step [water] 10 1 [] = candidate [water] 1" by blast
  then have w: "exhaustive_step [water] 10 1 [] = [water]" unfolding wcand .
  from exhaustive_best_replaced [of "[nuts, seeds]" 4 0 "[]"] n
  obtain best where best: "exhaustive_max_calories [nuts, seeds] 4 = Inr best"
      "best = fold (exhaustive_step [nuts, seeds] 4) (map int [0..<2 ^ length [nuts, seeds]]) []"
    by blast
  from best(1) run have "best = [nuts]" by simp
  with best(2) have c: "fold (exhaustive_step [nuts, seeds] 4)
      (map int [0..<2 ^ length [nuts, seeds]]) [] = [nuts]" by simp
  from fits a equal b wfits w n run c show ?thesis by blast
qed

text \<open>
  Claim C4 as stated fails on its own example: a zero-calorie item that fits has the
  calories of the initial empty best, and still replaces it; the item is returned, not the
  earlier-found empty best.
\<close>

theorem exhaustive_empty_best_replaced_by_zero_calories:
  "total_weight_of (candidate [water] 1) \<le> 10
   \<and> total_calories_of (candidate [water] 1) = total_calories_of []
   \<and> exhaustive_step [water] 10 1 [] = [water]
   \<and> exhaustive_max_calories [water] 10 = Inr [water]"
  by code_simp

text \<open>
  Claim C5 fails on the code at 31 items: the assertion \<open>n < 64\<close> passes, and the double
  \<open>2^31\<close> does not fit the 32-bit \<open>int nSquared\<close>, which becomes \<open>INT_MIN\<close>; the loop
  over the masks is not entered, and the empty collection is returned although every
  single item fits.
\<close>

theorem exhaustive_max_calories_31_items:
  "length (replicate 31 rice) < 64
   \<and> double_to_int (2 ^ length (replicate 31 rice)) = - (2 ^ 31)
   \<and> exhaustive_max_calories (replicate 31 rice) 31 = Inr []
   \<and> subseq [rice] (replicate 31 rice)
   \<and> total_weight_of [rice] \<le> 31
   \<and> total_calories_of [] < total_calories_of [rice]"
  by (simp add: exhaustive_max_calories_def double_to_int_def trunc_def total_weight_of_eq
        total_calories_of_eq subseq_singleton_left)

text \<open>
  Claim C10. For every collection of fewer than 64 items, all of positive weight, and
  every strictly negative capacity, \<open>exhaustive_max_calories\<close> returns the empty collection,
  not an error and not a null pointer, although the weight 0 of the empty collection
  exceeds the capacity.
\<close>

theorem exhaustive_max_calories_negative_capacity:
  assumes "length foods < 64" and "\<forall>f\<in>set foods. 0 < weight f" and "capacity < 0"
  shows "exhaustive_max_calories foods capacity = Inr []
         \<and> \<not> total_weight_of [] \<le> capacity"
  using assms exhaustive_nothing_fits [of foods capacity] by simp

theorem exhaustive_max_calories_negative_capacity_witness:
  "length trivial_foods < 64
   \<and> 0 < weight test_whole_corn \<and> 0 < weight test_pasta
   \<and> (- 1::real) < 0
   \<and> exhaustive_max_calories trivial_foods (- 1) = Inr []
   \<and> \<not> total_weight_of [] \<le> (- 1::real)"
proof -
  have h1: "length trivial_foods < 64" by simp
  have h2: "\<forall>f\<in>set trivial_foods. 0 < weight f" by simp
  have h3: "(- 1::real) < 0" by simp
  from exhaustive_max_calories_negative_capacity [OF h1 h2 h3] show ?thesis by simp
qed

section \<open>Claims about both solvers\<close>









section \<open>Claims about the dynamic-programming solver\<close>



end
